theory Spec2Isabelle
  imports
    Complex_Main
    "HOL-Library.Multiset"
    "HOL-Library.List_Lexorder"
    "HOL-Library.Char_ord"
    "HOL-Library.Log_Nat"
begin

section \<open>Data model\<close>

text \<open>
  The browser's \<^verbatim>\<open>File\<close> object, with the attributes the pipeline reads. A JavaScript
  string is modelled as a HOL \<open>string\<close>; one list element stands for one UTF-16 code unit,
  which is what \<^verbatim>\<open>slice\<close>, \<^verbatim>\<open>startsWith\<close> and \<^verbatim>\<open>length\<close> count.
\<close>

record File =
  name :: string
  type :: string
  lastModified :: nat
  content :: "nat list"

text \<open>
  \<^verbatim>\<open>interface QuotationDoc\<close>. The fields \<^verbatim>\<open>id\<close>, \<^verbatim>\<open>type\<close> and \<^verbatim>\<open>error\<close> carry the
  prefix \<open>doc_\<close>, since \<open>id\<close> is a HOL constant and the other two names are fields of
  \<open>File\<close> and of the component state. An optional field is an \<open>option\<close>.
\<close>

record QuotationDoc =
  doc_id :: "string option"
  fileUrl :: string
  filename :: string
  doc_type :: string
  uploaded :: string
  extractedText :: string
  doc_error :: "string option"

text \<open>
  A thrown JavaScript value, reduced to what the \<^verbatim>\<open>catch\<close> clauses read of it: its
  \<^verbatim>\<open>message\<close> property, \<open>None\<close> when the value has none (or is \<^verbatim>\<open>null\<close>/\<^verbatim>\<open>undefined\<close>).
\<close>

datatype js_thrown = Thrown "string option"

definition Error :: "string \<Rightarrow> js_thrown" where
  "Error m = Thrown (Some m)"

text \<open>
  \<^verbatim>\<open>(err as Error)?.message || fallback\<close>: the message when it is present and not the
  empty string, the fallback otherwise.
\<close>

definition messageOr :: "js_thrown \<Rightarrow> string \<Rightarrow> string" where
  "messageOr err fallback =
     (case err of
        Thrown None \<Rightarrow> fallback
      | Thrown (Some m) \<Rightarrow> if m = [] then fallback else m)"

text \<open>
  A promise of an external library, seen from the moment it is created: it settles after
  some number of milliseconds with a rejection (\<open>Inl\<close>) or a value (\<open>Inr\<close>), or it stays
  pending for ever.
\<close>

datatype 'a promise = Settles nat "js_thrown + 'a" | Pending

section \<open>The timeout race\<close>

text \<open>
  \<^verbatim>\<open>Promise.race([promise, timer])\<close>, awaited. The timer rejects after \<open>ms\<close>
  milliseconds. The work is listed first in the array, so it wins when both have settled
  by the time the race looks at them.
\<close>

definition withTimeout :: "'a promise \<Rightarrow> nat \<Rightarrow> js_thrown + 'a" where
  "withTimeout promise ms =
     (case promise of
        Settles t r \<Rightarrow> if t \<le> ms then r else Inl (Error ''Extraction timed out'')
      | Pending \<Rightarrow> Inl (Error ''Extraction timed out''))"

section \<open>External collaborators\<close>

text \<open>
  What the third-party libraries and the cloud backend answer during one iteration of the
  batch loop: OCR (\<^verbatim>\<open>Tesseract.recognize\<close>, read at \<^verbatim>\<open>result.data.text\<close>), the byte read,
  the Word conversion (\<^verbatim>\<open>mammoth.extractRawText\<close>, read at \<^verbatim>\<open>result.value\<close>), the text
  decode, the clock, object storage and the document database. The storage and database
  calls are awaited without a timeout; they are taken to settle.
\<close>

record ext =
  recognize :: "File \<Rightarrow> string option promise"
  arrayBuffer :: "File \<Rightarrow> nat list promise"
  extractRawText :: "nat list \<Rightarrow> string option promise"
  file_text :: "File \<Rightarrow> string promise"
  dateNow :: nat
  uploadBytes :: "string \<Rightarrow> File \<Rightarrow> js_thrown + unit"
  getDownloadURL :: "string \<Rightarrow> js_thrown + string"
  toISOString :: string
  addDoc :: "QuotationDoc \<Rightarrow> js_thrown + string"

section \<open>Extraction router\<close>

definition startsWith :: "string \<Rightarrow> string \<Rightarrow> bool" where
  "startsWith s p = (take (length p) s = p)"

text \<open>\<^verbatim>\<open>v || ''\<close> for a value that is a string, \<^verbatim>\<open>undefined\<close> or \<^verbatim>\<open>null\<close>.\<close>

definition orEmpty :: "string option \<Rightarrow> string" where
  "orEmpty v = (case v of None \<Rightarrow> [] | Some s \<Rightarrow> s)"

definition docxType :: string where
  "docxType = ''application/vnd.openxmlformats-officedocument.wordprocessingml.document''"

definition extractText :: "ext \<Rightarrow> File \<Rightarrow> js_thrown + string" where
  "extractText x file =
     (if startsWith (type file) ''image/'' then
        (case withTimeout (recognize x file) 10000 of
           Inl e \<Rightarrow> Inl e
         | Inr result \<Rightarrow> Inr (orEmpty result))
      else if type file = ''application/pdf'' then
        Inr ''[PDF text extraction coming soon]''
      else if type file = docxType then
        (case withTimeout (arrayBuffer x file) 10000 of
           Inl e \<Rightarrow> Inl e
         | Inr buf \<Rightarrow>
            (case withTimeout (extractRawText x buf) 10000 of
               Inl e \<Rightarrow> Inl e
             | Inr result \<Rightarrow> Inr (orEmpty result)))
      else if startsWith (type file) ''text/'' then
        withTimeout (file_text x file) 10000
      else Inr ''[Unsupported file type]'')"

section \<open>JavaScript numbers\<close>

text \<open>
  A JavaScript number is an IEEE-754 binary64 value. The finite ones are rationals, so the
  arithmetic is modelled exactly over \<open>rat\<close>: an operation computes the exact result
  and rounds it to the nearest value with a 53-bit significand, ties to even
  (\<open>double\<close>). Overflow and subnormal numbers are left out: the sequencer only divides
  a positive integer by a larger-or-equal array length and multiplies by 100.
\<close>

definition pow2 :: "int \<Rightarrow> rat" where
  "pow2 k = (if 0 \<le> k then 2 ^ nat k else 1 / 2 ^ nat (- k))"

text \<open>For \<open>x > 0\<close>, the exponent \<open>e\<close> with \<open>2^e \<le> x < 2^(e+1)\<close>.\<close>

definition ilog2 :: "rat \<Rightarrow> int" where
  "ilog2 x = (if 1 \<le> x then bitlen \<lfloor>x\<rfloor> - 1 else - bitlen (\<lceil>1 / x\<rceil> - 1))"

definition roundTiesToEven :: "rat \<Rightarrow> int" where
  "roundTiesToEven m =
     (let f = \<lfloor>m\<rfloor>; r = m - of_int f
      in if r < 1 / 2 then f else if 1 / 2 < r then f + 1 else if even f then f else f + 1)"

definition ulp :: "rat \<Rightarrow> rat" where
  "ulp x = pow2 (ilog2 \<bar>x\<bar> - 52)"

definition double :: "rat \<Rightarrow> rat" where
  "double x = (if x = 0 then 0 else sgn x * (of_int (roundTiesToEven (\<bar>x\<bar> / ulp x)) * ulp x))"

definition js_div :: "rat \<Rightarrow> rat \<Rightarrow> rat" where
  "js_div a b = double (a / b)"

definition js_mul :: "rat \<Rightarrow> rat \<Rightarrow> rat" where
  "js_mul a b = double (a * b)"

text \<open>\<^verbatim>\<open>Math.round\<close>: the nearest integer, a tie going up.\<close>

definition Math_round :: "rat \<Rightarrow> int" where
  "Math_round x = \<lfloor>x + 1 / 2\<rfloor>"

text \<open>\<^verbatim>\<open>Math.round(((i + 1) / files.length) * 100)\<close>.\<close>

definition progressAfter :: "nat \<Rightarrow> nat \<Rightarrow> int" where
  "progressAfter i n = Math_round (js_mul (js_div (of_nat (i + 1)) (of_nat n)) 100)"

section \<open>Ingestion sequencer\<close>

text \<open>The component state of \<^verbatim>\<open>App\<close> (its \<^verbatim>\<open>useState\<close> cells).\<close>

record AppState =
  files :: "File list"
  processing :: bool
  progress :: int
  step :: string
  quotations :: "QuotationDoc list"
  search :: string
  error :: "string option"

text \<open>
  The \<open>quotations\<close> collection of the document database: the stored documents with the
  identifiers the database gave them, in the order they were added.
\<close>

type_synonym collection = "(string \<times> QuotationDoc) list"

text \<open>
  The outside world during one run: the collaborators' answers during iteration \<open>i\<close> of
  the loop, whether the final \<^verbatim>\<open>getDocs\<close> query is rejected (\<open>Some\<close> of the thrown
  value) or answers with the collection, and the platform's \<^verbatim>\<open>String.prototype.localeCompare\<close>.
\<close>

record world =
  at_file :: "nat \<Rightarrow> ext"
  getDocs :: "js_thrown option"
  localeCompare :: "string \<Rightarrow> string \<Rightarrow> int"

text \<open>Number to string, as the template literal renders \<^verbatim>\<open>Date.now()\<close>.\<close>

fun decimal :: "nat \<Rightarrow> string" where
  "decimal n =
     (if n < 10 then [''0123456789'' ! n]
      else decimal (n div 10) @ [''0123456789'' ! (n mod 10)])"

declare decimal.simps [simp del]

text \<open>The storage key \<^verbatim>\<open>`quotations/${file.name}_${Date.now()}`\<close>.\<close>

definition storageRef :: "ext \<Rightarrow> File \<Rightarrow> string" where
  "storageRef x file = ''quotations/'' @ name file @ ''_'' @ decimal (dateNow x)"

text \<open>
  The second \<^verbatim>\<open>try\<close> block of the loop body: store the bytes, resolve the URL, build the
  record and insert it. The result is the thrown value, or the new document's identifier
  with the record that was inserted.
\<close>

definition uploadStep ::
  "ext \<Rightarrow> File \<Rightarrow> string \<Rightarrow> string \<Rightarrow> js_thrown + (string \<times> QuotationDoc)" where
  "uploadStep x file extracted errorMsg =
     (case uploadBytes x (storageRef x file) file of
        Inl e \<Rightarrow> Inl e
      | Inr _ \<Rightarrow>
         (case getDownloadURL x (storageRef x file) of
            Inl e \<Rightarrow> Inl e
          | Inr url \<Rightarrow>
             (let record =
                \<lparr>doc_id = None, fileUrl = url, filename = name file,
                 doc_type = type file, uploaded = toISOString x,
                 extractedText = take 600 extracted,
                 doc_error = (if errorMsg \<noteq> [] then Some errorMsg else None)\<rparr>
              in case addDoc x record of
                   Inl e \<Rightarrow> Inl e
                 | Inr newId \<Rightarrow> Inr (newId, record))))"

text \<open>
  The first \<^verbatim>\<open>try\<close> block, after the first \<^verbatim>\<open>setStep\<close>: the values of the
  block-scoped \<^verbatim>\<open>extractedText\<close> and \<^verbatim>\<open>errorMsg\<close> after it (both are declared in
  the loop body and initialised to the empty string), and the component state.
\<close>

definition extractStep :: "ext \<Rightarrow> File \<Rightarrow> AppState \<Rightarrow> string \<times> string \<times> AppState" where
  "extractStep x file s =
     (case extractText x file of
        Inr t \<Rightarrow> (t, [], s)
      | Inl err \<Rightarrow>
         (let errorMsg = messageOr err ''Extraction failed''
          in ([], errorMsg,
              s\<lparr>error := Some (''Extraction failed: '' @ name file @ '': '' @ errorMsg)\<rparr>)))"

text \<open>One iteration of the \<^verbatim>\<open>for\<close> loop, for the file at index \<open>i\<close> of \<open>n\<close>.\<close>

definition processFile ::
  "ext \<Rightarrow> nat \<Rightarrow> nat \<Rightarrow> File \<Rightarrow> AppState \<times> collection \<Rightarrow> AppState \<times> collection" where
  "processFile x i n file st =
     (let (s, db) = st;
          s1 = s\<lparr>step := ''Extracting text: '' @ name file\<rparr>;
          (extracted, errorMsg, s2) = extractStep x file s1;
          s3 = s2\<lparr>step := ''Uploading: '' @ name file\<rparr>;
          (s4, db') =
            (case uploadStep x file extracted errorMsg of
               Inr added \<Rightarrow> (s3, db @ [added])
             | Inl err \<Rightarrow>
                (s3\<lparr>error := Some (''Upload failed: '' @ name file @ '': ''
                                      @ messageOr err ''Upload failed'')\<rparr>, db))
      in (s4\<lparr>progress := progressAfter i n\<rparr>, db'))"

text \<open>The state after the first \<open>k\<close> iterations of the loop over the batch \<open>fs\<close>.\<close>

definition afterFiles ::
  "world \<Rightarrow> File list \<Rightarrow> nat \<Rightarrow> AppState \<times> collection \<Rightarrow> AppState \<times> collection" where
  "afterFiles w fs k st =
     foldl (\<lambda>acc i. processFile (at_file w i) i (length fs) (fs ! i) acc) st [0..<k]"

text \<open>
  \<^verbatim>\<open>Array.prototype.sort(comparefn)\<close>: a stable sort; \<open>a\<close> goes before \<open>b\<close> when
  \<open>comparefn a b < 0\<close>. For a consistent comparison function the result is the one
  stable insertion sort computes.
\<close>

fun insert_sorted :: "('a \<Rightarrow> 'a \<Rightarrow> int) \<Rightarrow> 'a \<Rightarrow> 'a list \<Rightarrow> 'a list" where
  "insert_sorted comparefn x [] = [x]"
| "insert_sorted comparefn x (y # ys) =
     (if comparefn x y \<le> 0 then x # y # ys else y # insert_sorted comparefn x ys)"

definition array_sort :: "('a \<Rightarrow> 'a \<Rightarrow> int) \<Rightarrow> 'a list \<Rightarrow> 'a list" where
  "array_sort comparefn xs = foldr (insert_sorted comparefn) xs []"

text \<open>\<^verbatim>\<open>{ id: doc.id, ...doc.data() }\<close>: an \<^verbatim>\<open>id\<close> field of the data wins over the document's.\<close>

definition toDoc :: "string \<times> QuotationDoc \<Rightarrow> QuotationDoc" where
  "toDoc d = (case doc_id (snd d) of None \<Rightarrow> (snd d)\<lparr>doc_id := Some (fst d)\<rparr> | Some _ \<Rightarrow> snd d)"

text \<open>
  \<^verbatim>\<open>fetchQuotations\<close>. The first component is \<open>Some\<close> of the thrown value when the
  returned promise rejects; the display list is then left as it was.
\<close>

definition fetchQuotations ::
  "world \<Rightarrow> AppState \<Rightarrow> collection \<Rightarrow> js_thrown option \<times> AppState" where
  "fetchQuotations w s db =
     (case getDocs w of
        Some e \<Rightarrow> (Some e, s)
      | None \<Rightarrow>
         (None, s\<lparr>quotations :=
            array_sort (\<lambda>a b. localeCompare w (uploaded b) (uploaded a)) (map toDoc db)\<rparr>))"

text \<open>
  \<^verbatim>\<open>handleUpload\<close>. The loop runs over the \<^verbatim>\<open>files\<close> value the handler closed over. The
  result is the rejection of the returned promise, if any, with the component state and
  the collection at the end.
\<close>

definition handleUpload ::
  "world \<Rightarrow> AppState \<times> collection \<Rightarrow> js_thrown option \<times> AppState \<times> collection" where
  "handleUpload w st =
     (let (s, db) = st;
          fs = files s;
          s0 = s\<lparr>processing := True, progress := 0, error := None\<rparr>;
          (s1, db1) = afterFiles w fs (length fs) (s0, db);
          s2 = s1\<lparr>processing := False, files := [], step := []\<rparr>;
          (r, s3) = fetchQuotations w s2 db1
      in (r, s3, db1))"

section \<open>Notions used in the statements\<close>


text \<open>The documents that iteration \<open>i\<close> of the loop added to the collection.\<close>

definition addedAt ::
  "world \<Rightarrow> File list \<Rightarrow> nat \<Rightarrow> AppState \<times> collection \<Rightarrow> collection" where
  "addedAt w fs i st =
     drop (length (snd (afterFiles w fs i st))) (snd (afterFiles w fs (Suc i) st))"

text \<open>
  What one iteration adds to the collection, written as a function of the file and of the
  collaborators' answers during that iteration alone.
\<close>

definition recordsOf :: "ext \<Rightarrow> File \<Rightarrow> collection" where
  "recordsOf x file =
     (case extractText x file of
        Inr t \<Rightarrow> (case uploadStep x file t [] of Inr added \<Rightarrow> [added] | Inl e \<Rightarrow> [])
      | Inl err \<Rightarrow>
         (case uploadStep x file [] (messageOr err ''Extraction failed'') of
            Inr added \<Rightarrow> [added] | Inl e \<Rightarrow> []))"













subsection \<open>Concrete inputs\<close>

definition pdfFile :: File where
  "pdfFile = \<lparr>name = ''offer.pdf'', type = ''application/pdf'', lastModified = 0, content = []\<rparr>"

definition txtFile :: File where
  "txtFile = \<lparr>name = ''a.txt'', type = ''text/plain'', lastModified = 0, content = [104, 105]\<rparr>"

definition pngFile :: File where
  "pngFile = \<lparr>name = ''scan.png'', type = ''image/png'', lastModified = 0, content = [137, 80]\<rparr>"

definition docxFile :: File where
  "docxFile = \<lparr>name = ''huge.docx'', type = docxType, lastModified = 0, content = [80, 75]\<rparr>"

text \<open>Every library promise stays pending and every backend call is rejected.\<close>

definition stalledExt :: ext where
  "stalledExt =
     \<lparr>recognize = (\<lambda>f. Pending), arrayBuffer = (\<lambda>f. Pending),
      extractRawText = (\<lambda>b. Pending), file_text = (\<lambda>f. Pending), dateNow = 1700000000000,
      uploadBytes = (\<lambda>k f. Inl (Error ''storage/unauthorized'')),
      getDownloadURL = (\<lambda>k. Inl (Error ''storage/object-not-found'')),
      toISOString = ''2023-11-14T22:13:20.000Z'',
      addDoc = (\<lambda>r. Inl (Error ''permission-denied''))\<rparr>"

text \<open>Every library promise stays pending, the backend accepts everything.\<close>

definition slowExt :: ext where
  "slowExt =
     \<lparr>recognize = (\<lambda>f. Pending), arrayBuffer = (\<lambda>f. Pending),
      extractRawText = (\<lambda>b. Pending), file_text = (\<lambda>f. Pending), dateNow = 1700000000000,
      uploadBytes = (\<lambda>k f. Inr ()),
      getDownloadURL = (\<lambda>k. Inr ''https://storage.example/f''),
      toISOString = ''2023-11-14T22:13:20.000Z'',
      addDoc = (\<lambda>r. Inr ''doc1'')\<rparr>"

definition longText :: string where
  "longText = replicate 700 CHR ''x''"

text \<open>The text decode answers after 5 ms with 700 characters, the backend accepts everything.\<close>

definition promptExt :: ext where
  "promptExt =
     \<lparr>recognize = (\<lambda>f. Settles 5 (Inr (Some ''Invoice #1''))),
      arrayBuffer = (\<lambda>f. Settles 5 (Inr (content f))),
      extractRawText = (\<lambda>b. Settles 5 (Inr None)),
      file_text = (\<lambda>f. Settles 5 (Inr longText)), dateNow = 1700000000000,
      uploadBytes = (\<lambda>k f. Inr ()),
      getDownloadURL = (\<lambda>k. Inr ''https://storage.example/f''),
      toISOString = ''2023-11-14T22:13:20.000Z'',
      addDoc = (\<lambda>r. Inr ''doc1'')\<rparr>"


text \<open>The code-unit order of strings, as a three-way comparison.\<close>

definition codeUnitCompare :: "string \<Rightarrow> string \<Rightarrow> int" where
  "codeUnitCompare a b = (if a < b then - 1 else if b < a then 1 else 0)"

definition rejectingWorld :: world where
  "rejectingWorld = \<lparr>at_file = (\<lambda>i. stalledExt), getDocs = None, localeCompare = codeUnitCompare\<rparr>"

definition slowWorld :: world where
  "slowWorld = \<lparr>at_file = (\<lambda>i. slowExt), getDocs = None, localeCompare = codeUnitCompare\<rparr>"

definition promptWorld :: world where
  "promptWorld = \<lparr>at_file = (\<lambda>i. promptExt), getDocs = None, localeCompare = codeUnitCompare\<rparr>"

definition initialState :: AppState where
  "initialState =
     \<lparr>files = [], processing = False, progress = 0, step = [], quotations = [],
      search = [], error = None\<rparr>"

definition offlineWorld :: world where
  "offlineWorld = promptWorld\<lparr>getDocs := Some (Error ''Failed to get documents'')\<rparr>"

text \<open>A batch of forty text files, \<open>0.txt\<close> to \<open>39.txt\<close>.\<close>

definition fortyFiles :: "File list" where
  "fortyFiles = map (\<lambda>k. txtFile\<lparr>name := decimal k @ ''.txt''\<rparr>) [0..<40]"

definition oneTextFile :: AppState where
  "oneTextFile = initialState\<lparr>files := [txtFile]\<rparr>"

definition txtRecord :: QuotationDoc where
  "txtRecord =
     \<lparr>doc_id = None, fileUrl = ''https://storage.example/f'', filename = ''a.txt'',
      doc_type = ''text/plain'', uploaded = ''2023-11-14T22:13:20.000Z'',
      extractedText = take 600 longText, doc_error = None\<rparr>"


definition newerDoc :: QuotationDoc where
  "newerDoc = txtRecord\<lparr>uploaded := ''2024-02-01T08:00:00.000Z'', filename := ''newer.txt''\<rparr>"




section \<open>Extraction router: properties\<close>

text \<open>
  Claim C4. A file whose declared media type is exactly \<open>application/pdf\<close> yields the
  placeholder text, whatever its name, size and content and whatever the external
  libraries would answer (also when every one of their promises stays pending): the
  branch consults no promise, so it can neither fail nor time out.
\<close>

theorem extractText_pdf:
  "type file = ''application/pdf'' \<Longrightarrow>
     extractText x file = Inr ''[PDF text extraction coming soon]''"
  by (simp add: extractText_def startsWith_def)

theorem extractText_pdf_witness:
  "type pdfFile = ''application/pdf'' \<and>
   extractText stalledExt pdfFile = Inr ''[PDF text extraction coming soon]''"
  using extractText_pdf [of pdfFile stalledExt] by (simp add: pdfFile_def)

section \<open>The timeout race: properties\<close>







section \<open>Ingestion sequencer: the loop\<close>

lemma afterFiles_0: "afterFiles w fs 0 st = st"
  by (simp add: afterFiles_def)

lemma afterFiles_Suc:
  "afterFiles w fs (Suc k) st =
     processFile (at_file w k) k (length fs) (fs ! k) (afterFiles w fs k st)"
  by (simp add: afterFiles_def)

lemma snd_processFile: "snd (processFile x i n f st) = snd st @ recordsOf x f"
  by (cases st)
    (auto simp: processFile_def extractStep_def recordsOf_def Let_def
          split: prod.splits sum.splits)

lemma progress_processFile: "progress (fst (processFile x i n f st)) = progressAfter i n"
  by (cases st) (auto simp: processFile_def Let_def split: prod.splits sum.splits)

lemma step_processFile: "step (fst (processFile x i n f st)) = ''Uploading: '' @ name f"
  by (cases st) (auto simp: processFile_def extractStep_def Let_def split: prod.splits sum.splits)

lemma messageOr_nonempty: "fallback \<noteq> [] \<Longrightarrow> messageOr e fallback \<noteq> []"
  by (cases e) (simp add: messageOr_def split: option.splits)

lemma isl_case_sum_Inl: "isl a \<Longrightarrow> isl (case a of Inl e \<Rightarrow> Inl e | Inr v \<Rightarrow> g v)"
  by (cases a) simp_all

lemma uploadStep_fails:
  assumes "isl (uploadBytes x (storageRef x f) f) \<or> isl (getDownloadURL x (storageRef x f))
           \<or> (\<forall>r. isl (addDoc x r))"
  shows "isl (uploadStep x f t m)"
proof (cases "uploadBytes x (storageRef x f) f")
  case (Inl e)
  then show ?thesis by (simp add: uploadStep_def)
next
  case up: (Inr u)
  show ?thesis
  proof (cases "getDownloadURL x (storageRef x f)")
    case (Inl e)
    with up show ?thesis by (simp add: uploadStep_def)
  next
    case (Inr url)
    with up assms have "\<forall>r. isl (addDoc x r)" by simp
    with up Inr show ?thesis
      by (simp add: uploadStep_def Let_def isl_case_sum_Inl)
  qed
qed

lemma snd_processFile_fails:
  assumes "\<And>t m. isl (uploadStep x f t m)"
  shows "snd (processFile x i n f st) = snd st"
proof -
  have "(case uploadStep x f t m of Inr added \<Rightarrow> [added] | Inl e \<Rightarrow> []) = []" for t m
    using assms [of t m] by (cases "uploadStep x f t m") simp_all
  then show ?thesis
    by (simp add: snd_processFile recordsOf_def split: sum.splits)
qed

text \<open>
  Claim C1. When the upload step of the file at index \<open>i\<close> fails (the storage write is
  rejected, or the URL resolution is, or the database rejects the insert), the iteration
  leaves the collection as it was, whatever the extraction gave; the failure is shown as
  \<open>Upload failed: {filename}: {message}\<close>, and the loop goes on with the file at
  index \<open>i + 1\<close> when there is one.
\<close>

theorem upload_failure_creates_no_record:
  assumes "i < length fs"
    and "isl (uploadBytes (at_file w i) (storageRef (at_file w i) (fs ! i)) (fs ! i))
         \<or> isl (getDownloadURL (at_file w i) (storageRef (at_file w i) (fs ! i)))
         \<or> (\<forall>r. isl (addDoc (at_file w i) r))"
  shows "snd (afterFiles w fs (Suc i) st) = snd (afterFiles w fs i st)
       \<and> (\<exists>msg. error (fst (afterFiles w fs (Suc i) st))
                  = Some (''Upload failed: '' @ name (fs ! i) @ '': '' @ msg))
       \<and> (Suc i < length fs \<longrightarrow>
            afterFiles w fs (Suc (Suc i)) st
              = processFile (at_file w (Suc i)) (Suc i) (length fs) (fs ! Suc i)
                  (afterFiles w fs (Suc i) st))"
proof -
  let ?x = "at_file w i" and ?f = "fs ! i"
  have fails: "isl (uploadStep ?x ?f t m)" for t m
    using assms(2) by (rule uploadStep_fails)
  have db: "snd (afterFiles w fs (Suc i) st) = snd (afterFiles w fs i st)"
    using fails by (simp add: afterFiles_Suc snd_processFile_fails)
  have err: "\<exists>msg. error (fst (processFile ?x i n ?f st'))
                  = Some (''Upload failed: '' @ name ?f @ '': '' @ msg)" for n st'
  proof (cases st')
    case (Pair s d)
    obtain t m s2 where
      ex: "extractStep ?x ?f (s\<lparr>step := ''Extracting text: '' @ name ?f\<rparr>) = (t, m, s2)"
      by (metis prod_cases3)
    from fails [of t m] obtain e where "uploadStep ?x ?f t m = Inl e"
      by (auto simp: isl_def)
    with Pair ex show ?thesis
      by (simp add: processFile_def Let_def)
  qed
  show ?thesis
    using db err by (simp add: afterFiles_Suc)
qed

theorem upload_failure_creates_no_record_witness:
  "(0::nat) < length [txtFile, pdfFile]
   \<and> (isl (uploadBytes (at_file rejectingWorld 0) (storageRef (at_file rejectingWorld 0)
              ([txtFile, pdfFile] ! 0)) ([txtFile, pdfFile] ! 0))
        \<or> isl (getDownloadURL (at_file rejectingWorld 0) (storageRef (at_file rejectingWorld 0)
              ([txtFile, pdfFile] ! 0)))
        \<or> (\<forall>r. isl (addDoc (at_file rejectingWorld 0) r)))
   \<and> snd (afterFiles rejectingWorld [txtFile, pdfFile] (Suc 0) (initialState, []))
       = snd (afterFiles rejectingWorld [txtFile, pdfFile] 0 (initialState, []))
   \<and> (\<exists>msg. error (fst (afterFiles rejectingWorld [txtFile, pdfFile] (Suc 0) (initialState, [])))
              = Some (''Upload failed: '' @ name ([txtFile, pdfFile] ! 0) @ '': '' @ msg))
   \<and> Suc 0 < length [txtFile, pdfFile]
   \<and> afterFiles rejectingWorld [txtFile, pdfFile] (Suc (Suc 0)) (initialState, [])
       = processFile (at_file rejectingWorld (Suc 0)) (Suc 0) (length [txtFile, pdfFile])
           ([txtFile, pdfFile] ! Suc 0)
           (afterFiles rejectingWorld [txtFile, pdfFile] (Suc 0) (initialState, []))"
proof -
  have h1: "(0::nat) < length [txtFile, pdfFile]" by simp
  have h2: "isl (uploadBytes (at_file rejectingWorld 0) (storageRef (at_file rejectingWorld 0)
              ([txtFile, pdfFile] ! 0)) ([txtFile, pdfFile] ! 0))
        \<or> isl (getDownloadURL (at_file rejectingWorld 0) (storageRef (at_file rejectingWorld 0)
              ([txtFile, pdfFile] ! 0)))
        \<or> (\<forall>r. isl (addDoc (at_file rejectingWorld 0) r))"
    by (simp add: rejectingWorld_def stalledExt_def)
  have h3: "Suc 0 < length [txtFile, pdfFile]" by simp
  note T = upload_failure_creates_no_record [OF h1 h2, of "(initialState, [])"]
  show ?thesis
    by (intro conjI)
      (rule h1 h2 h3 T [THEN conjunct1] T [THEN conjunct2, THEN conjunct1]
         T [THEN conjunct2, THEN conjunct2, THEN mp, OF h3])+
qed

text \<open>
  Claim C2. When the extraction of the file at index \<open>i\<close> fails, the iteration still goes
  on to the upload step, with an empty extracted text: what it adds to the collection is
  decided by that step alone. When the storage write, the URL resolution and the insert
  succeed, exactly one record is added; its \<open>extractedText\<close> is the empty string and
  its \<open>error\<close> field is present, holding the failure's message, or
  \<open>Extraction failed\<close> when the thrown value has no message or an empty one.
\<close>

theorem extraction_failure_still_uploads:
  assumes "i < length fs"
    and "extractText (at_file w i) (fs ! i) = Inl e"
  shows "step (fst (afterFiles w fs (Suc i) st)) = ''Uploading: '' @ name (fs ! i)
       \<and> snd (afterFiles w fs (Suc i) st) =
           snd (afterFiles w fs i st)
           @ (case uploadStep (at_file w i) (fs ! i) [] (messageOr e ''Extraction failed'') of
                Inr added \<Rightarrow> [added] | Inl u \<Rightarrow> [])
       \<and> (\<not> isl (uploadBytes (at_file w i) (storageRef (at_file w i) (fs ! i)) (fs ! i))
            \<and> getDownloadURL (at_file w i) (storageRef (at_file w i) (fs ! i)) = Inr url
            \<and> (\<forall>r. \<not> isl (addDoc (at_file w i) r))
          \<longrightarrow> (\<exists>newId r.
                 snd (afterFiles w fs (Suc i) st) = snd (afterFiles w fs i st) @ [(newId, r)]
               \<and> addDoc (at_file w i) r = Inr newId
               \<and> fileUrl r = url \<and> filename r = name (fs ! i) \<and> doc_type r = type (fs ! i)
               \<and> extractedText r = []
               \<and> doc_error r = Some (messageOr e ''Extraction failed'')
               \<and> doc_error r \<noteq> Some []
               \<and> (\<forall>m. e = Thrown (Some m) \<and> m \<noteq> [] \<longrightarrow> doc_error r = Some m)
               \<and> (e = Thrown None \<or> e = Thrown (Some [])
                    \<longrightarrow> doc_error r = Some ''Extraction failed'')))"
proof -
  let ?x = "at_file w i" and ?f = "fs ! i" and ?m = "messageOr e ''Extraction failed''"
  have m: "?m \<noteq> []" by (simp add: messageOr_nonempty)
  have recs: "recordsOf ?x ?f =
      (case uploadStep ?x ?f [] ?m of Inr added \<Rightarrow> [added] | Inl u \<Rightarrow> [])"
    using assms(2) by (simp add: recordsOf_def)
  have A: "step (fst (afterFiles w fs (Suc i) st)) = ''Uploading: '' @ name ?f"
    by (simp add: afterFiles_Suc step_processFile)
  have B: "snd (afterFiles w fs (Suc i) st) =
           snd (afterFiles w fs i st)
           @ (case uploadStep ?x ?f [] ?m of Inr added \<Rightarrow> [added] | Inl u \<Rightarrow> [])"
    by (simp add: afterFiles_Suc snd_processFile recs)
  have C: "\<exists>newId r.
                 snd (afterFiles w fs (Suc i) st) = snd (afterFiles w fs i st) @ [(newId, r)]
               \<and> addDoc ?x r = Inr newId
               \<and> fileUrl r = url \<and> filename r = name ?f \<and> doc_type r = type ?f
               \<and> extractedText r = []
               \<and> doc_error r = Some ?m
               \<and> doc_error r \<noteq> Some []
               \<and> (\<forall>m. e = Thrown (Some m) \<and> m \<noteq> [] \<longrightarrow> doc_error r = Some m)
               \<and> (e = Thrown None \<or> e = Thrown (Some [])
                    \<longrightarrow> doc_error r = Some ''Extraction failed'')"
    if up: "\<not> isl (uploadBytes ?x (storageRef ?x ?f) ?f)"
      and url: "getDownloadURL ?x (storageRef ?x ?f) = Inr url"
      and ins: "\<forall>r. \<not> isl (addDoc ?x r)"
  proof -
    define r where "r = \<lparr>doc_id = None, fileUrl = url, filename = name ?f,
                 doc_type = type ?f, uploaded = toISOString ?x,
                 extractedText = take 600 [],
                 doc_error = (if ?m \<noteq> [] then Some ?m else None)\<rparr>"
    from up obtain u where u: "uploadBytes ?x (storageRef ?x ?f) ?f = Inr u"
      by (cases "uploadBytes ?x (storageRef ?x ?f) ?f") simp_all
    from ins obtain newId where newId: "addDoc ?x r = Inr newId"
      by (cases "addDoc ?x r") (auto dest: spec [of _ r])
    have "uploadStep ?x ?f [] ?m = Inr (newId, r)"
      using u url newId by (simp add: uploadStep_def Let_def r_def)
    with B have "snd (afterFiles w fs (Suc i) st) = snd (afterFiles w fs i st) @ [(newId, r)]"
      by simp
    moreover have "fileUrl r = url" "filename r = name ?f" "doc_type r = type ?f"
      "extractedText r = []" "doc_error r = Some ?m"
      using m by (simp_all add: r_def)
    moreover have "\<forall>m. e = Thrown (Some m) \<and> m \<noteq> [] \<longrightarrow> ?m = m"
      by (simp add: messageOr_def)
    moreover have "e = Thrown None \<or> e = Thrown (Some []) \<longrightarrow> ?m = ''Extraction failed''"
      by (auto simp: messageOr_def)
    ultimately show ?thesis using newId m by auto
  qed
  from A B C show ?thesis by blast
qed

theorem extraction_failure_still_uploads_witness:
  "(0::nat) < length [txtFile]
   \<and> extractText (at_file slowWorld 0) ([txtFile] ! 0) = Inl (Error ''Extraction timed out'')
   \<and> \<not> isl (uploadBytes (at_file slowWorld 0) (storageRef (at_file slowWorld 0) ([txtFile] ! 0))
              ([txtFile] ! 0))
   \<and> getDownloadURL (at_file slowWorld 0) (storageRef (at_file slowWorld 0) ([txtFile] ! 0))
       = Inr ''https://storage.example/f''
   \<and> (\<forall>r. \<not> isl (addDoc (at_file slowWorld 0) r))
   \<and> step (fst (afterFiles slowWorld [txtFile] (Suc 0) (initialState, [])))
       = ''Uploading: '' @ name ([txtFile] ! 0)
   \<and> (\<exists>newId r.
         snd (afterFiles slowWorld [txtFile] (Suc 0) (initialState, []))
           = snd (afterFiles slowWorld [txtFile] 0 (initialState, [])) @ [(newId, r)]
       \<and> extractedText r = [] \<and> doc_error r = Some ''Extraction timed out'')"
proof -
  have h1: "(0::nat) < length [txtFile]" by simp
  have h2: "extractText (at_file slowWorld 0) ([txtFile] ! 0) = Inl (Error ''Extraction timed out'')"
    by (simp add: slowWorld_def slowExt_def txtFile_def extractText_def startsWith_def
          docxType_def withTimeout_def)
  have h3: "\<not> isl (uploadBytes (at_file slowWorld 0) (storageRef (at_file slowWorld 0) ([txtFile] ! 0))
              ([txtFile] ! 0))"
    by (simp add: slowWorld_def slowExt_def)
  have h4: "getDownloadURL (at_file slowWorld 0) (storageRef (at_file slowWorld 0) ([txtFile] ! 0))
       = Inr ''https://storage.example/f''"
    by (simp add: slowWorld_def slowExt_def)
  have h5: "\<forall>r. \<not> isl (addDoc (at_file slowWorld 0) r)"
    by (simp add: slowWorld_def slowExt_def)
  have m: "messageOr (Error ''Extraction timed out'') ''Extraction failed'' = ''Extraction timed out''"
    by (simp add: messageOr_def Error_def)
  note T = extraction_failure_still_uploads [OF h1 h2, of "(initialState, [])"
      "''https://storage.example/f''"]
  have S: "step (fst (afterFiles slowWorld [txtFile] (Suc 0) (initialState, [])))
       = ''Uploading: '' @ name ([txtFile] ! 0)"
    by (rule T [THEN conjunct1])
  have "\<not> isl (uploadBytes (at_file slowWorld 0) (storageRef (at_file slowWorld 0) ([txtFile] ! 0))
              ([txtFile] ! 0))
      \<and> getDownloadURL (at_file slowWorld 0) (storageRef (at_file slowWorld 0) ([txtFile] ! 0))
          = Inr ''https://storage.example/f''
      \<and> (\<forall>r. \<not> isl (addDoc (at_file slowWorld 0) r))"
    using h3 h4 h5 by (intro conjI)
  from T [THEN conjunct2, THEN conjunct2, THEN mp, OF this]
  obtain newId r where
    "snd (afterFiles slowWorld [txtFile] (Suc 0) (initialState, []))
       = snd (afterFiles slowWorld [txtFile] 0 (initialState, [])) @ [(newId, r)]"
    and "extractedText r = []"
    and "doc_error r = Some (messageOr (Error ''Extraction timed out'') ''Extraction failed'')"
    by (elim exE conjE)
  then have R: "\<exists>newId r.
         snd (afterFiles slowWorld [txtFile] (Suc 0) (initialState, []))
           = snd (afterFiles slowWorld [txtFile] 0 (initialState, [])) @ [(newId, r)]
       \<and> extractedText r = [] \<and> doc_error r = Some ''Extraction timed out''"
    unfolding m by (intro exI conjI)
  show ?thesis
    by (intro conjI) (rule h1 h2 h3 h4 h5 S R)+
qed

section \<open>Ingestion sequencer: the records\<close>

lemma addedAt_eq: "addedAt w fs i st = recordsOf (at_file w i) (fs ! i)"
  by (simp add: addedAt_def afterFiles_Suc snd_processFile)

lemma snd_afterFiles:
  "snd (afterFiles w fs k st) =
     snd st @ concat (map (\<lambda>i. recordsOf (at_file w i) (fs ! i)) [0..<k])"
  by (induction k) (simp_all add: afterFiles_0 afterFiles_Suc snd_processFile)

lemma recordsOf_content:
  assumes "d \<in> set (recordsOf x f)"
  shows "extractedText (snd d) = take 600 (case extractText x f of Inr t \<Rightarrow> t | Inl e \<Rightarrow> [])
       \<and> doc_error (snd d) =
           (case extractText x f of Inr t \<Rightarrow> None
            | Inl e \<Rightarrow> Some (messageOr e ''Extraction failed''))"
  using assms messageOr_nonempty [of "''Extraction failed''"]
  by (auto simp: recordsOf_def uploadStep_def Let_def split: sum.splits)

lemma snd_handleUpload:
  "snd (snd (handleUpload w (s, db))) =
     db @ concat (map (\<lambda>i. recordsOf (at_file w i) (files s ! i)) [0..<length (files s)])"
  by (simp add: handleUpload_def Let_def snd_afterFiles split: prod.splits)
    (metis snd_afterFiles snd_conv)

lemma extractText_prompt_txt: "extractText promptExt txtFile = Inr longText"
  by (simp add: extractText_def promptExt_def txtFile_def startsWith_def docxType_def
        withTimeout_def)

lemma recordsOf_prompt_txt: "recordsOf promptExt txtFile = [(''doc1'', txtRecord)]"
  by (simp add: recordsOf_def extractText_prompt_txt uploadStep_def Let_def txtRecord_def)
    (simp add: promptExt_def txtFile_def)

text \<open>
  Claim C3. Every document a run adds to the collection has a text summary of at most
  600 code units: it is the first 600 code units of what the extraction of one of the
  batch's files returned (all of it when it is shorter), and the empty string when that
  extraction failed or returned the empty string.
\<close>

theorem summary_at_most_600:
  assumes "d \<in> set (drop (length db) (snd (snd (handleUpload w (s, db)))))"
  shows "length (extractedText (snd d)) \<le> 600
       \<and> (\<exists>i<length (files s).
             extractedText (snd d) =
               take 600 (case extractText (at_file w i) (files s ! i) of
                           Inr t \<Rightarrow> t | Inl e \<Rightarrow> []))"
proof -
  from assms obtain i where i: "i < length (files s)"
    and d: "d \<in> set (recordsOf (at_file w i) (files s ! i))"
    by (auto simp: snd_handleUpload)
  from recordsOf_content [OF d] have
    eq: "extractedText (snd d) =
           take 600 (case extractText (at_file w i) (files s ! i) of Inr t \<Rightarrow> t | Inl e \<Rightarrow> [])"
    by simp
  then have "length (extractedText (snd d)) \<le> 600" by simp
  with eq i show ?thesis by blast
qed

theorem summary_at_most_600_witness:
  "(''doc1'', txtRecord) \<in> set (drop (length ([] :: collection))
       (snd (snd (handleUpload promptWorld (oneTextFile, [])))))
   \<and> length (extractedText (snd (''doc1'', txtRecord))) \<le> 600
   \<and> length longText = 700
   \<and> extractedText (snd (''doc1'', txtRecord)) = replicate 600 CHR ''x''"
proof -
  have h: "(''doc1'', txtRecord) \<in> set (drop (length ([] :: collection))
       (snd (snd (handleUpload promptWorld (oneTextFile, [])))))"
    by (simp add: snd_handleUpload oneTextFile_def initialState_def promptWorld_def
          recordsOf_prompt_txt)
  have A: "length (extractedText (snd (''doc1'', txtRecord))) \<le> 600"
    by (rule summary_at_most_600 [OF h, THEN conjunct1])
  have B: "length longText = 700" by (simp add: longText_def)
  have C: "extractedText (snd (''doc1'', txtRecord)) = replicate 600 CHR ''x''"
    by (simp add: txtRecord_def longText_def)
  show ?thesis by (intro conjI) (rule h A B C)+
qed

text \<open>
  Claim C10. What iteration \<open>i\<close> adds to the collection is decided by the file at index
  \<open>i\<close> and by the collaborators' answers during that iteration alone: two runs that
  agree there add the same documents in iteration \<open>i\<close>, whatever the files before, their
  extraction outcomes and the state the iteration starts from. The summary and the error
  field of such a document are those of this file's own extraction.
\<close>

theorem record_reflects_own_extraction_only:
  assumes "i < length fs" and "i < length fs'"
    and "at_file w i = at_file w' i" and "fs ! i = fs' ! i"
  shows "addedAt w fs i st = addedAt w' fs' i st'
       \<and> (\<forall>d\<in>set (addedAt w fs i st).
            extractedText (snd d) =
              take 600 (case extractText (at_file w i) (fs ! i) of Inr t \<Rightarrow> t | Inl e \<Rightarrow> [])
          \<and> doc_error (snd d) =
              (case extractText (at_file w i) (fs ! i) of
                 Inr t \<Rightarrow> None
               | Inl e \<Rightarrow> Some (messageOr e ''Extraction failed'')))"
  using assms(3,4) by (simp add: addedAt_eq recordsOf_content)

theorem record_reflects_own_extraction_only_witness:
  "(1::nat) < length [pngFile, txtFile] \<and> (1::nat) < length [docxFile, txtFile]
   \<and> at_file promptWorld 1 = at_file (promptWorld\<lparr>at_file := (\<lambda>i. if i = 0 then slowExt else promptExt)\<rparr>) 1
   \<and> [pngFile, txtFile] ! 1 = [docxFile, txtFile] ! 1
   \<and> addedAt promptWorld [pngFile, txtFile] 1 (initialState, [])
       = addedAt (promptWorld\<lparr>at_file := (\<lambda>i. if i = 0 then slowExt else promptExt)\<rparr>)
           [docxFile, txtFile] 1 (oneTextFile, [(''doc0'', txtRecord)])
   \<and> (''doc1'', txtRecord) \<in> set (addedAt promptWorld [pngFile, txtFile] 1 (initialState, []))
   \<and> extractedText (snd (''doc1'', txtRecord)) =
        take 600 (case extractText (at_file promptWorld 1) ([pngFile, txtFile] ! 1) of
                    Inr t \<Rightarrow> t | Inl e \<Rightarrow> [])
   \<and> doc_error (snd (''doc1'', txtRecord)) =
        (case extractText (at_file promptWorld 1) ([pngFile, txtFile] ! 1) of
           Inr t \<Rightarrow> None | Inl e \<Rightarrow> Some (messageOr e ''Extraction failed''))"
proof -
  let ?w' = "promptWorld\<lparr>at_file := (\<lambda>i. if i = 0 then slowExt else promptExt)\<rparr>"
  have h1: "(1::nat) < length [pngFile, txtFile]" and h2: "(1::nat) < length [docxFile, txtFile]"
    by simp_all
  have h3: "at_file promptWorld 1 = at_file ?w' 1"
    by (simp add: promptWorld_def)
  have h4: "[pngFile, txtFile] ! 1 = [docxFile, txtFile] ! 1" by simp
  note T = record_reflects_own_extraction_only [OF h1 h2 h3 h4, of "(initialState, [])"
      "(oneTextFile, [(''doc0'', txtRecord)])"]
  have m: "(''doc1'', txtRecord) \<in> set (addedAt promptWorld [pngFile, txtFile] 1 (initialState, []))"
    by (simp add: addedAt_eq promptWorld_def recordsOf_prompt_txt)
  from T [THEN conjunct2, THEN bspec, OF m] T [THEN conjunct1] h1 h2 h3 h4 m
  show ?thesis by (intro conjI) simp_all
qed

section \<open>The displayed list\<close>









lemma handleUpload_eq:
  "handleUpload w (s, db) =
     (let st1 = afterFiles w (files s) (length (files s))
                  (s\<lparr>processing := True, progress := 0, error := None\<rparr>, db);
          s2 = (fst st1)\<lparr>processing := False, files := [], step := []\<rparr>;
          r = fetchQuotations w s2 (snd st1)
      in (fst r, snd r, snd st1))"
  by (simp add: handleUpload_def Let_def split: prod.splits)

lemma snd_handleUpload_oneTextFile:
  "snd (snd (handleUpload promptWorld (oneTextFile, db))) = db @ [(''doc1'', txtRecord)]"
  by (simp add: snd_handleUpload oneTextFile_def initialState_def promptWorld_def
        recordsOf_prompt_txt)





















section \<open>The end of a run\<close>

lemma double_1: "double 1 = 1"
  by code_simp

lemma double_100: "double 100 = 100"
  by code_simp

lemma Math_round_100: "Math_round 100 = 100"
  by code_simp

lemma progressAfter_last: "0 < n \<Longrightarrow> progressAfter (n - 1) n = 100"
  by (simp add: progressAfter_def js_div_def js_mul_def double_1 double_100 Math_round_100)

lemma progress_afterFiles_Suc:
  "progress (fst (afterFiles w fs (Suc i) st)) = progressAfter i (length fs)"
  by (simp add: afterFiles_Suc progress_processFile)

lemma fetchQuotations_frame:
  "processing (snd (fetchQuotations w s db)) = processing s"
  "progress (snd (fetchQuotations w s db)) = progress s"
  "step (snd (fetchQuotations w s db)) = step s"
  "files (snd (fetchQuotations w s db)) = files s"
  "error (snd (fetchQuotations w s db)) = error s"
  by (simp_all add: fetchQuotations_def split: option.splits)

lemma progress_handleUpload:
  "progress (fst (snd (handleUpload w (s, db)))) = (if files s = [] then 0 else 100)"
proof (cases "files s")
  case Nil
  then show ?thesis
    by (simp add: handleUpload_eq Let_def fetchQuotations_frame afterFiles_0)
next
  case (Cons f fs)
  then have n: "length (files s) = Suc (length fs)" by simp
  show ?thesis
    using progressAfter_last [of "length (files s)"]
    by (simp add: handleUpload_eq Let_def fetchQuotations_frame n progress_afterFiles_Suc Cons)
qed

text \<open>
  Claim C7, as the code has it. When \<^verbatim>\<open>handleUpload\<close> returns, the \<open>processing\<close> flag
  is off, the step label is empty and the selection is empty, whatever happened to the
  files of the batch. The \<open>progress\<close> value is not reset: it is what the last
  iteration set, 100 after a batch that was not empty (and 0, from the start of the run,
  after an empty one). When the database answers the final query, the returned promise is
  fulfilled and the display list is replaced by the documents of the collection, sorted
  by the comparison function of \<^verbatim>\<open>fetchQuotations\<close>.
\<close>

theorem after_run_state:
  "processing (fst (snd (handleUpload w (s, db)))) = False
   \<and> step (fst (snd (handleUpload w (s, db)))) = []
   \<and> files (fst (snd (handleUpload w (s, db)))) = []
   \<and> progress (fst (snd (handleUpload w (s, db)))) = (if files s = [] then 0 else 100)
   \<and> (getDocs w = None \<longrightarrow>
        fst (handleUpload w (s, db)) = None
      \<and> quotations (fst (snd (handleUpload w (s, db)))) =
          array_sort (\<lambda>a b. localeCompare w (uploaded b) (uploaded a))
            (map toDoc (snd (snd (handleUpload w (s, db))))))"
proof (intro conjI impI)
  show "progress (fst (snd (handleUpload w (s, db)))) = (if files s = [] then 0 else 100)"
    by (rule progress_handleUpload)
qed (simp_all add: handleUpload_eq Let_def fetchQuotations_frame, simp_all add: fetchQuotations_def)

theorem after_run_state_witness:
  "processing (fst (snd (handleUpload promptWorld (oneTextFile, [(''d2'', newerDoc)])))) = False
   \<and> progress (fst (snd (handleUpload promptWorld (oneTextFile, [(''d2'', newerDoc)])))) = 100
   \<and> getDocs promptWorld = None
   \<and> fst (handleUpload promptWorld (oneTextFile, [(''d2'', newerDoc)])) = None
   \<and> quotations (fst (snd (handleUpload promptWorld (oneTextFile, [(''d2'', newerDoc)])))) =
        [newerDoc\<lparr>doc_id := Some ''d2''\<rparr>, txtRecord\<lparr>doc_id := Some ''doc1''\<rparr>]"
proof -
  have h: "getDocs promptWorld = None" by (simp add: promptWorld_def)
  note T = after_run_state [of promptWorld oneTextFile "[(''d2'', newerDoc)]"]
  have f: "files oneTextFile \<noteq> []" by (simp add: oneTextFile_def initialState_def)
  have A: "processing (fst (snd (handleUpload promptWorld (oneTextFile, [(''d2'', newerDoc)])))) = False"
    by (rule T [THEN conjunct1])
  have B: "progress (fst (snd (handleUpload promptWorld (oneTextFile, [(''d2'', newerDoc)])))) = 100"
    using T [THEN conjunct2, THEN conjunct2, THEN conjunct2, THEN conjunct1] f by simp
  note R = T [THEN conjunct2, THEN conjunct2, THEN conjunct2, THEN conjunct2, THEN mp, OF h]
  have C: "fst (handleUpload promptWorld (oneTextFile, [(''d2'', newerDoc)])) = None"
    by (rule R [THEN conjunct1])
  have D: "quotations (fst (snd (handleUpload promptWorld (oneTextFile, [(''d2'', newerDoc)])))) =
        [newerDoc\<lparr>doc_id := Some ''d2''\<rparr>, txtRecord\<lparr>doc_id := Some ''doc1''\<rparr>]"
    unfolding R [THEN conjunct2] snd_handleUpload_oneTextFile
    by (simp add: array_sort_def toDoc_def newerDoc_def txtRecord_def promptWorld_def
          codeUnitCompare_def)
  show ?thesis by (intro conjI) (rule A B h C D)+
qed

text \<open>
  Claim C7 as stated fails: after a run over one text file, with every collaborator
  answering, the step label and the selection are cleared but the progress value is 100.
\<close>

theorem progress_not_cleared:
  "\<not> (progress (fst (snd (handleUpload promptWorld (oneTextFile, [])))) = 0
       \<and> step (fst (snd (handleUpload promptWorld (oneTextFile, [])))) = []
       \<and> files (fst (snd (handleUpload promptWorld (oneTextFile, [])))) = [])
   \<and> progress (fst (snd (handleUpload promptWorld (oneTextFile, [])))) = 100"
  by (simp add: progress_handleUpload oneTextFile_def initialState_def)

section \<open>Failures that are not caught\<close>

lemma quotations_processFile: "quotations (fst (processFile x i n f st)) = quotations (fst st)"
  by (cases st) (auto simp: processFile_def extractStep_def Let_def split: prod.splits sum.splits)

lemma error_processFile_ok:
  assumes "extractText x f = Inr t" and "uploadStep x f t [] = Inr added"
  shows "error (fst (processFile x i n f (s, db))) = error s"
  using assms by (simp add: processFile_def extractStep_def Let_def)

text \<open>
  Claim C9 at a failing input. The batch is one text file, extraction and upload succeed,
  and the database rejects the query that ends the run. The promise \<^verbatim>\<open>handleUpload\<close>
  returns is then rejected with the thrown value; no message is put into the error slot
  and the display list is not replaced, although the document was stored.
\<close>

theorem refetch_rejection_propagates:
  "fst (handleUpload offlineWorld (oneTextFile, [])) = Some (Error ''Failed to get documents'')
   \<and> error (fst (snd (handleUpload offlineWorld (oneTextFile, [])))) = None
   \<and> quotations (fst (snd (handleUpload offlineWorld (oneTextFile, [])))) = []
   \<and> snd (snd (handleUpload offlineWorld (oneTextFile, []))) = [(''doc1'', txtRecord)]"
proof -
  have up: "uploadStep promptExt txtFile longText [] = Inr (''doc1'', txtRecord)"
    by (simp add: uploadStep_def Let_def txtRecord_def) (simp add: promptExt_def txtFile_def)
  have w: "at_file offlineWorld 0 = promptExt" "getDocs offlineWorld = Some (Error ''Failed to get documents'')"
    by (simp_all add: offlineWorld_def promptWorld_def)
  have st: "afterFiles offlineWorld [txtFile] (Suc 0) (s, []) =
        processFile promptExt 0 1 txtFile (s, [])" for s
    by (simp add: afterFiles_Suc afterFiles_0 w)
  show ?thesis
    by (simp add: handleUpload_eq Let_def oneTextFile_def initialState_def st w
          fetchQuotations_def error_processFile_ok [OF extractText_prompt_txt up]
          snd_processFile recordsOf_prompt_txt quotations_processFile)
qed

section \<open>The progress value\<close>

text \<open>
  \<open>ilog2\<close> finds the binade of a positive rational, so \<open>double\<close> rounds to 53
  significant bits; the rounding error is at most half a unit in the last place.
\<close>

lemma pow2_powi: "pow2 k = 2 powi k"
  unfolding pow2_def power_int_def
  by (simp only: inverse_eq_divide power_one_over)

lemma pow2_pos: "0 < pow2 k"
  by (simp add: pow2_powi)

lemma pow2_diff: "pow2 (k - l) = pow2 k / pow2 l"
  by (simp add: pow2_powi power_int_diff)

lemma pow2_Suc: "pow2 (k + 1) = 2 * pow2 k"
  by (simp add: pow2_powi power_int_add)

lemma pow2_nat: "0 \<le> k \<Longrightarrow> pow2 k = 2 ^ nat k"
  by (simp add: pow2_def)

lemma pow2_neg: "0 \<le> k \<Longrightarrow> pow2 (- k) = 1 / 2 ^ nat k"
  by (cases "k = 0") (simp_all add: pow2_def)

lemma ilog2_lower:
  assumes "0 < x"
  shows "pow2 (ilog2 x) \<le> x"
proof (cases "1 \<le> x")
  case True
  then have f: "0 < \<lfloor>x\<rfloor>" by simp
  from bitlen_bounds [OF f] have "2 ^ nat (bitlen \<lfloor>x\<rfloor> - 1) \<le> \<lfloor>x\<rfloor>" by simp
  then have "(of_int (2 ^ nat (bitlen \<lfloor>x\<rfloor> - 1)) :: rat) \<le> of_int \<lfloor>x\<rfloor>"
    by (simp only: of_int_le_iff)
  also have "\<dots> \<le> x" by simp
  finally have "(2::rat) ^ nat (bitlen \<lfloor>x\<rfloor> - 1) \<le> x" by simp
  moreover from f have "0 \<le> bitlen \<lfloor>x\<rfloor> - 1"
    using bitlen_eq_zero_iff [of "\<lfloor>x\<rfloor>"] bitlen_nonneg [of "\<lfloor>x\<rfloor>"] by linarith
  ultimately show ?thesis using True by (simp add: ilog2_def pow2_nat)
next
  case False
  let ?c = "\<lceil>1 / x\<rceil>"
  let ?k = "bitlen (?c - 1)"
  from False assms have "1 < 1 / x" by (simp add: field_simps)
  then have c: "1 < ?c" by (simp add: less_ceiling_iff)
  then have pos: "0 < ?c - 1" by simp
  from bitlen_bounds [OF pos] have "?c - 1 < 2 ^ nat ?k" by simp
  then have "?c \<le> 2 ^ nat ?k" by simp
  then have "(of_int ?c :: rat) \<le> of_int (2 ^ nat ?k)" by (simp only: of_int_le_iff)
  moreover have "1 / x \<le> of_int ?c" by (rule le_of_int_ceiling)
  moreover have "(of_int (2 ^ nat ?k) :: rat) = 2 ^ nat ?k" by simp
  ultimately have "1 / x \<le> 2 ^ nat ?k" by linarith
  with assms have "1 / 2 ^ nat ?k \<le> x" by (simp add: field_simps)
  with False show ?thesis
    by (simp add: ilog2_def pow2_neg bitlen_nonneg)
qed

lemma ilog2_upper:
  assumes "0 < x"
  shows "x < pow2 (ilog2 x + 1)"
proof (cases "1 \<le> x")
  case True
  then have f: "0 < \<lfloor>x\<rfloor>" by simp
  from bitlen_bounds [OF f] have "\<lfloor>x\<rfloor> + 1 \<le> 2 ^ nat (bitlen \<lfloor>x\<rfloor>)" by simp
  then have "(of_int (\<lfloor>x\<rfloor> + 1) :: rat) \<le> of_int (2 ^ nat (bitlen \<lfloor>x\<rfloor>))"
    by (simp only: of_int_le_iff)
  moreover have "x < of_int (\<lfloor>x\<rfloor> + 1)" by linarith
  ultimately have "x < 2 ^ nat (bitlen \<lfloor>x\<rfloor>)" by simp
  with True show ?thesis by (simp add: ilog2_def pow2_nat bitlen_nonneg)
next
  case False
  let ?c = "\<lceil>1 / x\<rceil>"
  let ?k = "bitlen (?c - 1)"
  from False assms have "1 < 1 / x" by (simp add: field_simps)
  then have c: "1 < ?c" by (simp add: less_ceiling_iff)
  then have pos: "0 < ?c - 1" by simp
  then have k: "1 \<le> ?k"
    using bitlen_eq_zero_iff [of "?c - 1"] bitlen_nonneg [of "?c - 1"] by linarith
  from bitlen_bounds [OF pos] have "2 ^ nat (?k - 1) \<le> ?c - 1" by simp
  then have "(of_int (2 ^ nat (?k - 1)) :: rat) \<le> of_int (?c - 1)"
    by (simp only: of_int_le_iff)
  moreover have "of_int (?c - 1) < 1 / x" by linarith
  ultimately have "2 ^ nat (?k - 1) < 1 / x" by simp
  with assms have "x < 1 / 2 ^ nat (?k - 1)" by (simp add: field_simps)
  moreover from k have "pow2 (- ?k + 1) = 1 / 2 ^ nat (?k - 1)"
    using pow2_neg [of "?k - 1"] by simp
  ultimately show ?thesis using False by (simp add: ilog2_def)
qed

lemma roundTiesToEven_error: "\<bar>of_int (roundTiesToEven m) - m\<bar> \<le> 1 / 2"
proof -
  have "of_int \<lfloor>m\<rfloor> \<le> m" "m < of_int \<lfloor>m\<rfloor> + 1" by linarith+
  then show ?thesis
    by (auto simp: roundTiesToEven_def Let_def abs_le_iff)
qed

lemma double_error:
  assumes "0 < x"
  shows "\<bar>double x - x\<bar> \<le> x / 2 ^ 53"
proof -
  let ?u = "ulp x"
  have u: "0 < ?u" by (simp add: ulp_def pow2_pos)
  have "pow2 52 = 2 ^ 52" by (simp add: pow2_def)
  then have "?u = pow2 (ilog2 x) / 2 ^ 52"
    using assms by (simp add: ulp_def pow2_diff)
  with ilog2_lower [OF assms] have ux: "?u \<le> x / 2 ^ 52"
    by (simp add: divide_right_mono)
  have "double x - x = (of_int (roundTiesToEven (x / ?u)) - x / ?u) * ?u"
    using assms u by (simp add: double_def field_simps)
  then have "\<bar>double x - x\<bar> = \<bar>of_int (roundTiesToEven (x / ?u)) - x / ?u\<bar> * ?u"
    using u by (simp add: abs_mult)
  also have "\<dots> \<le> (1 / 2) * ?u"
    using roundTiesToEven_error [of "x / ?u"] u by (intro mult_right_mono) simp_all
  also have "\<dots> \<le> (1 / 2) * (x / 2 ^ 52)"
    using ux by simp
  also have "\<dots> = x / 2 ^ 53" by simp
  finally show ?thesis .
qed


lemma progress_product_error:
  assumes "i < n"
  shows "\<bar>js_mul (js_div (of_nat (i + 1)) (of_nat n)) 100 - 100 * of_nat (i + 1) / of_nat n\<bar>
           < 201 / 2 ^ 53"
proof -
  define x :: rat where "x = of_nat (i + 1) / of_nat n"
  define x1 where "x1 = double x"
  define y where "y = double (x1 * 100)"
  from assms have n: "(0::rat) < of_nat n" by simp
  have x0: "0 < x" using assms by (simp add: x_def)
  have "(of_nat (i + 1) :: rat) \<le> of_nat n"
    using assms by simp
  with n have x1le: "x \<le> 1" by (simp add: x_def)
  have e1: "\<bar>x1 - x\<bar> \<le> x / 2 ^ 53"
    unfolding x1_def by (rule double_error [OF x0])
  from x0 have "x / 2 ^ 53 < x" by simp
  with e1 have x1pos: "0 < x1" by linarith
  then have "0 < x1 * 100" by simp
  then have e2: "\<bar>y - x1 * 100\<bar> \<le> x1 * 100 / 2 ^ 53"
    unfolding y_def by (rule double_error)
  from x1le have "x / 2 ^ 53 \<le> 1 / 2 ^ 53" by (simp add: divide_right_mono)
  with e1 x1le have b1: "x1 \<le> 1 + 1 / 2 ^ 53" and b1': "\<bar>x1 - x\<bar> \<le> 1 / 2 ^ 53"
    by linarith+
  from b1 have "x1 * 100 / 2 ^ 53 \<le> (1 + 1 / 2 ^ 53) * 100 / 2 ^ 53"
    by (intro divide_right_mono mult_right_mono) simp_all
  with e2 have b2: "\<bar>y - x1 * 100\<bar> \<le> (1 + 1 / 2 ^ 53) * 100 / 2 ^ 53"
    by linarith
  from b2 b1' have "\<bar>y - 100 * x\<bar> \<le> (1 + 1 / 2 ^ 53) * 100 / 2 ^ 53 + 100 * (1 / 2 ^ 53)"
    by linarith
  also have "\<dots> < 201 / 2 ^ 53" by simp
  finally have "\<bar>y - 100 * x\<bar> < 201 / 2 ^ 53" .
  then show ?thesis
    by (simp add: y_def x1_def x_def js_mul_def js_div_def)
qed

lemma floor_near_quotient:
  fixes y :: rat and N D :: int
  assumes "0 < D" and "\<bar>y - of_int N / of_int D\<bar> < 1 / of_int D"
  shows "\<lfloor>y\<rfloor> \<le> N div D \<and> N div D - 1 \<le> \<lfloor>y\<rfloor> \<and> (N mod D \<noteq> 0 \<longrightarrow> \<lfloor>y\<rfloor> = N div D)"
proof -
  let ?k = "N div D" and ?r = "N mod D"
  from assms(1) have D: "(0::rat) < of_int D" by simp
  have "N = D * ?k + ?r" by simp
  then have "(of_int N :: rat) = of_int D * of_int ?k + of_int ?r"
    by (metis of_int_add of_int_mult)
  with D have t: "(of_int N :: rat) / of_int D = of_int ?k + of_int ?r / of_int D"
    by (simp add: field_simps)
  from assms(1) have r: "0 \<le> ?r" "?r + 1 \<le> D"
    using pos_mod_bound [of D N] pos_mod_sign [of D N] by linarith+
  then have ru: "(of_int ?r + 1 :: rat) \<le> of_int D"
    by (metis of_int_1 of_int_add of_int_le_iff)
  with D have "(of_int ?r + 1 :: rat) / of_int D \<le> 1" by simp
  then have up: "(of_int ?r :: rat) / of_int D + 1 / of_int D \<le> 1"
    by (simp add: add_divide_distrib)
  from r(1) D have lo: "(0::rat) \<le> of_int ?r / of_int D" by simp
  from assms(1) have "1 \<le> D" by simp
  then have "(1::rat) \<le> of_int D" by simp
  with D have one: "(1::rat) / of_int D \<le> 1" by simp
  from assms(2) have y1: "y < of_int N / of_int D + 1 / of_int D"
    and y2: "of_int N / of_int D - 1 / of_int D < y"
    by linarith+
  from y1 t up have "y < of_int (?k + 1)" by (simp; linarith)
  then have "\<lfloor>y\<rfloor> < ?k + 1" by (simp only: floor_less_iff)
  then have A: "\<lfloor>y\<rfloor> \<le> ?k" by simp
  from y2 t lo one have "of_int (?k - 1) < y" by (simp; linarith)
  then have "of_int (?k - 1) \<le> y" by (rule less_imp_le)
  then have B: "?k - 1 \<le> \<lfloor>y\<rfloor>" by (simp only: le_floor_iff)
  have C: "\<lfloor>y\<rfloor> = ?k" if "?r \<noteq> 0"
  proof -
    from that r(1) have "1 \<le> ?r" by simp
    then have "(1::rat) \<le> of_int ?r" by (metis of_int_1 of_int_le_iff)
    with D have "(1::rat) / of_int D \<le> of_int ?r / of_int D"
      by (simp add: divide_right_mono)
    with y2 t have "of_int ?k \<le> y" by simp
    then have "?k \<le> \<lfloor>y\<rfloor>" by (simp only: le_floor_iff)
    with A show ?thesis by simp
  qed
  from A B C show ?thesis by blast
qed

lemma progressAfter_near_round:
  assumes "i < n" and "n < 2 ^ 32"
  shows "progressAfter i n \<le> round (100 * of_nat (i + 1) / of_nat n :: rat)
       \<and> round (100 * of_nat (i + 1) / of_nat n :: rat) - 1 \<le> progressAfter i n
       \<and> (\<not> 2 * n dvd 200 * (i + 1) + n
            \<longrightarrow> progressAfter i n = round (100 * of_nat (i + 1) / of_nat n :: rat))"
proof -
  let ?N = "int (200 * (i + 1) + n)" and ?D = "int (2 * n)"
  let ?q = "100 * of_nat (i + 1) / of_nat n :: rat"
  let ?Y = "js_mul (js_div (of_nat (i + 1)) (of_nat n)) 100"
  from assms have D: "0 < ?D" by simp
  from assms(1) have n: "of_nat n \<noteq> (0::rat)" by simp
  then have t: "(of_int ?N :: rat) / of_int ?D = ?q + 1 / 2"
    by (simp add: field_simps)
  from assms(2) have "int n < 2 ^ 32" by (metis of_nat_less_numeral_power_cancel_iff)
  then have "?D * 201 < 2 ^ 53" by simp
  then have "(of_int (?D * 201) :: rat) < of_int (2 ^ 53)" by (simp only: of_int_less_iff)
  then have "(of_int ?D :: rat) * 201 < 2 ^ 53" by simp
  moreover from D have Dr: "(0::rat) < of_int ?D" by (simp only: of_int_0_less_iff)
  ultimately have small: "(201::rat) / 2 ^ 53 < 1 / of_int ?D"
    by (simp add: field_simps)
  from progress_product_error [OF assms(1)] have "\<bar>?Y - ?q\<bar> < 201 / 2 ^ 53" .
  with small have "\<bar>(?Y + 1 / 2) - of_int ?N / of_int ?D\<bar> < 1 / of_int ?D"
    unfolding t by simp
  from floor_near_quotient [OF D this]
  have F: "\<lfloor>?Y + 1 / 2\<rfloor> \<le> ?N div ?D" "?N div ?D - 1 \<le> \<lfloor>?Y + 1 / 2\<rfloor>"
    "?N mod ?D \<noteq> 0 \<longrightarrow> \<lfloor>?Y + 1 / 2\<rfloor> = ?N div ?D"
    by blast+
  have R: "round ?q = ?N div ?D"
    unfolding round_def t [symmetric] by (rule floor_divide_of_int_eq)
  have P: "progressAfter i n = \<lfloor>?Y + 1 / 2\<rfloor>"
    by (simp add: progressAfter_def Math_round_def)
  have M: "(?N mod ?D \<noteq> 0) = (\<not> 2 * n dvd 200 * (i + 1) + n)"
    by (metis int_dvd_int_iff dvd_eq_mod_eq_0)
  from F show ?thesis unfolding R P M by blast
qed

lemma progressAfter_22_40: "progressAfter 22 40 = 57"
  by code_simp

lemma round_23_40: "round (100 * (22 + 1) / 40 :: rat) = 58"
  by (simp add: round_def) 


text \<open>
  The extent of the deviation. For a batch of \<open>n < 2^32\<close> files (the bound of a
  JavaScript array's length), the progress value after the file at index \<open>i\<close> is
  \<^verbatim>\<open>Math.round\<close> of the double-precision product \<^verbatim>\<open>((i + 1) / n) * 100\<close>, whatever the
  file's extraction and upload did. It equals \<open>round (100 (i + 1) / n)\<close>, ties going
  up, whenever \<open>100 (i + 1) / n\<close> is not exactly halfway between two integers, that
  is, when \<open>2 n\<close> does not divide \<open>200 (i + 1) + n\<close>. On a tie the double-precision
  product can fall just below the half, and the value is that rounding or one less.
\<close>

theorem progress_after_file:
  assumes "i < length fs" and "length fs < 2 ^ 32"
  shows "progress (fst (afterFiles w fs (Suc i) st))
           = Math_round (js_mul (js_div (of_nat (i + 1)) (of_nat (length fs))) 100)
       \<and> progress (fst (afterFiles w fs (Suc i) st))
           \<le> round (100 * of_nat (i + 1) / of_nat (length fs) :: rat)
       \<and> round (100 * of_nat (i + 1) / of_nat (length fs) :: rat) - 1
           \<le> progress (fst (afterFiles w fs (Suc i) st))
       \<and> (\<not> 2 * length fs dvd 200 * (i + 1) + length fs
            \<longrightarrow> progress (fst (afterFiles w fs (Suc i) st))
                  = round (100 * of_nat (i + 1) / of_nat (length fs) :: rat))"
proof -
  note N = progressAfter_near_round [OF assms]
  show ?thesis
    unfolding progress_afterFiles_Suc
    by (intro conjI)
      (rule progressAfter_def N [THEN conjunct1] N [THEN conjunct2, THEN conjunct1]
         N [THEN conjunct2, THEN conjunct2])+
qed

theorem progress_after_file_witness:
  "(22::nat) < length fortyFiles \<and> length fortyFiles < 2 ^ 32
   \<and> progress (fst (afterFiles promptWorld fortyFiles (Suc 22) (initialState, [])))
       \<le> round (100 * of_nat (22 + 1) / of_nat (length fortyFiles) :: rat)
   \<and> round (100 * of_nat (22 + 1) / of_nat (length fortyFiles) :: rat) - 1
       \<le> progress (fst (afterFiles promptWorld fortyFiles (Suc 22) (initialState, [])))
   \<and> (0::nat) < length [txtFile, pdfFile, pngFile] \<and> length [txtFile, pdfFile, pngFile] < 2 ^ 32
   \<and> \<not> 2 * length [txtFile, pdfFile, pngFile] dvd 200 * (0 + 1) + length [txtFile, pdfFile, pngFile]
   \<and> progress (fst (afterFiles rejectingWorld [txtFile, pdfFile, pngFile] (Suc 0) (initialState, [])))
       = round (100 * of_nat (0 + 1) / of_nat (length [txtFile, pdfFile, pngFile]) :: rat)"
proof -
  have a1: "(22::nat) < length fortyFiles" and a2: "length fortyFiles < 2 ^ 32"
    by (simp_all add: fortyFiles_def)
  have b1: "(0::nat) < length [txtFile, pdfFile, pngFile]"
    and b2: "length [txtFile, pdfFile, pngFile] < 2 ^ 32"
    and b3: "\<not> 2 * length [txtFile, pdfFile, pngFile] dvd 200 * (0 + 1) + length [txtFile, pdfFile, pngFile]"
    by simp_all
  note T = progress_after_file [OF a1 a2, of promptWorld "(initialState, [])"]
  note U = progress_after_file [OF b1 b2, of rejectingWorld "(initialState, [])"]
  show ?thesis
    by (intro conjI)
      (rule a1 a2 b1 b2 b3 T [THEN conjunct2, THEN conjunct1]
         T [THEN conjunct2, THEN conjunct2, THEN conjunct1]
         U [THEN conjunct2, THEN conjunct2, THEN conjunct2, THEN mp, OF b3])+
qed

lemma multiply_first_23_40: "Math_round (js_div (js_mul 100 (22 + 1)) 40) = 58"
  by code_simp

text \<open>
  Claim C6 at a failing input. After file 23 of 40 the exact quotient is 57.5, which
  rounds to 58 (ties up, and ties to even as well). The code divides before it
  multiplies: \<^verbatim>\<open>(23 / 40) * 100\<close> is 57.49999999999999 in double precision and the
  progress value is 57. Multiplying first, \<^verbatim>\<open>(100 * 23) / 40\<close> is 57.5 exactly and
  \<^verbatim>\<open>Math.round\<close> gives 58.
\<close>

theorem progress_not_exact:
  "progress (fst (afterFiles promptWorld fortyFiles (Suc 22) (initialState, []))) = 57
   \<and> round (100 * (22 + 1) / 40 :: rat) = 58
   \<and> progress (fst (afterFiles promptWorld fortyFiles (Suc 22) (initialState, [])))
       \<noteq> round (100 * (22 + 1) / 40 :: rat)
   \<and> Math_round (js_div (js_mul 100 (22 + 1)) 40) = 58"
proof -
  have "length fortyFiles = 40" by (simp add: fortyFiles_def)
  then have "progress (fst (afterFiles promptWorld fortyFiles (Suc 22) (initialState, []))) = 57"
    by (simp only: progress_afterFiles_Suc progressAfter_22_40)
  then show ?thesis by (simp only: round_23_40 multiply_first_23_40) simp
qed

end
